theory Spec2Isabelle
  imports Main "HOL-Library.Sublist"
begin

section \<open>The project modal of the portfolio page\<close>

text \<open>
  The page (\<^verbatim>\<open>src/app/page.tsx\<close>) is one React client component, \<^verbatim>\<open>Home\<close>, with two
  stateful parts: the project modal (\<^verbatim>\<open>Home\<close>'s two state cells, its two handlers and the
  effect of \<^verbatim>\<open>ProjectModal\<close>) and the typewriter (\<^verbatim>\<open>TypeWriterText\<close>). Both are modelled as
  explicit state machines: the React state cells, the pending \<^verbatim>\<open>setTimeout\<close> timers and the
  part of the browser page the effects write to are fields of one record, and every handler,
  timer callback and effect run is a function on that record.

  React is modelled as follows. State updates made by one handler or one timer callback are
  batched; when at least one state cell changed, the component renders again and its effects
  run (cleanup of the previous run first) before the next event is handled. A state setter
  that is given the value the cell already holds does not cause a render.
\<close>

subsection \<open>Data\<close>

text \<open>
  The type \<^verbatim>\<open>Project\<close>. Optional fields are options; \<^verbatim>\<open>image\<close> may also be \<^verbatim>\<open>null\<close>, which
  the code never tells apart from a missing field. The fields \<^verbatim>\<open>id\<close> and \<^verbatim>\<open>image\<close> carry a
  suffix because HOL has constants of these names.
\<close>

record Project =
  id_p :: int
  title :: string
  description :: string
  fullDescription :: "string option"
  technologies :: "string list"
  features :: "string list option"
  challenges :: "string option"
  demoUrl :: "string option"
  githubUrl :: "string option"
  image_p :: "string option"

text \<open>
  The state of \<^verbatim>\<open>Home\<close> and of the page around it:
  \<^item> \<open>selectedProject\<close>, \<open>isModalOpen\<close>: the two \<^verbatim>\<open>useState\<close> cells of \<^verbatim>\<open>Home\<close>;
  \<^item> \<open>close_timers\<close>: the due times of the pending
    \<^verbatim>\<open>setTimeout(() => setSelectedProject(null), 300)\<close> calls, oldest first. The code keeps
    no handle of them and never cancels one;
  \<^item> \<open>clock\<close>: the current time in milliseconds;
  \<^item> \<open>body_overflow\<close>: \<^verbatim>\<open>document.body.style.overflow\<close>;
  \<^item> \<open>keydown_listeners\<close>: the \<^verbatim>\<open>keydown\<close> listeners on \<^verbatim>\<open>window\<close> that the effect installed,
    each \<^verbatim>\<open>onKeyDown\<close> closure named by a number; \<open>onKeyDown\<close> is the closure of the latest
    effect run (the one its cleanup removes) and \<open>next_listener\<close> the next fresh name;
  \<^item> \<open>frame_requests\<close>: the callbacks \<^verbatim>\<open>() => closeBtnRef.current?.focus()\<close> that the effect
    has handed to \<^verbatim>\<open>requestAnimationFrame\<close> and that have not run yet; the code never cancels
    one;
  \<^item> \<open>focus_calls\<close>: how often such a callback has called \<^verbatim>\<open>focus()\<close> on the close button;
  \<^item> \<open>mounted\<close>: whether the component is mounted. React drops the state updates of an
    unmounted component and runs no effect for it.
\<close>

record home =
  selectedProject :: "Project option"
  isModalOpen :: bool
  close_timers :: "nat list"
  clock :: nat
  body_overflow :: string
  keydown_listeners :: "nat list"
  onKeyDown :: nat
  next_listener :: nat
  frame_requests :: nat
  focus_calls :: nat
  mounted :: bool

subsection \<open>The effect of \<^verbatim>\<open>ProjectModal\<close>\<close>

text \<open>
  The function returned by the effect (lines 222-225): scrolling is given back and the
  listener of this run is removed.
\<close>

definition effect_cleanup :: "'a home_scheme \<Rightarrow> 'a home_scheme" where
  "effect_cleanup s =
     s\<lparr>body_overflow := ''unset'',
       keydown_listeners := remove1 (onKeyDown s) (keydown_listeners s)\<rparr>"

text \<open>
  The effect body (lines 212-221). The focus call is not made here: line 214 only hands the
  callback to \<^verbatim>\<open>requestAnimationFrame\<close>.
\<close>

definition effect_body :: "'a home_scheme \<Rightarrow> 'a home_scheme" where
  "effect_body s =
     (let s1 = (if isModalOpen s
                then s\<lparr>body_overflow := ''hidden'', frame_requests := frame_requests s + 1\<rparr>
                else s\<lparr>body_overflow := ''unset''\<rparr>);
          s2 = s1\<lparr>onKeyDown := next_listener s1, next_listener := next_listener s1 + 1\<rparr>
      in if isModalOpen s
         then s2\<lparr>keydown_listeners := keydown_listeners s2 @ [onKeyDown s2]\<rparr>
         else s2)"

text \<open>
  A render of \<^verbatim>\<open>Home\<close> builds a new \<^verbatim>\<open>handleCloseModal\<close>, so the dependency \<^verbatim>\<open>onClose\<close> of the
  effect changes with every render and the effect runs again after each one.
\<close>

definition rerender :: "'a home_scheme \<Rightarrow> 'a home_scheme" where
  "rerender s = effect_body (effect_cleanup s)"

text \<open>
  The end of a batch of state updates: \<open>s\<close> is the state before, \<open>s'\<close> after. For an unmounted
  component the updates of the two cells are dropped and nothing renders.
\<close>

definition commit :: "'a home_scheme \<Rightarrow> 'a home_scheme \<Rightarrow> 'a home_scheme" where
  "commit s s' =
     (if mounted s
      then if selectedProject s' = selectedProject s \<and> isModalOpen s' = isModalOpen s
           then s' else rerender s'
      else s'\<lparr>selectedProject := selectedProject s, isModalOpen := isModalOpen s\<rparr>)"

subsection \<open>The handlers of \<^verbatim>\<open>Home\<close>\<close>

text \<open>
  \<^verbatim>\<open>handleProjectClick\<close> (lines 359-362). The project objects are built anew by every render
  of \<^verbatim>\<open>Home\<close> (\<^verbatim>\<open>featuredProjects\<close> is a literal in the component body), so the object passed
  in is never the one the state cell holds and the update always causes a render.
\<close>

definition handleProjectClick :: "Project \<Rightarrow> 'a home_scheme \<Rightarrow> 'a home_scheme" where
  "handleProjectClick project s =
     rerender (s\<lparr>selectedProject := Some project, isModalOpen := True\<rparr>)"

text \<open>\<^verbatim>\<open>handleCloseModal\<close> (lines 364-367): its state update and timer, then the whole call.\<close>

definition close_updates :: "'a home_scheme \<Rightarrow> 'a home_scheme" where
  "close_updates s =
     s\<lparr>isModalOpen := False, close_timers := close_timers s @ [clock s + 300]\<rparr>"

definition handleCloseModal :: "'a home_scheme \<Rightarrow> 'a home_scheme" where
  "handleCloseModal s = commit s (close_updates s)"

text \<open>
  An Escape key press: the browser calls every installed \<^verbatim>\<open>keydown\<close> listener, and each calls
  \<^verbatim>\<open>onClose()\<close> (line 219).
\<close>

definition keydown_Escape :: "'a home_scheme \<Rightarrow> 'a home_scheme" where
  "keydown_Escape s = commit s (fold (\<lambda>_. close_updates) (keydown_listeners s) s)"

text \<open>The callback of a close timer, \<^verbatim>\<open>() => setSelectedProject(null)\<close>.\<close>

definition clear_selected :: "'a home_scheme \<Rightarrow> 'a home_scheme" where
  "clear_selected s = commit s (s\<lparr>selectedProject := None\<rparr>)"

text \<open>
  \<open>dt\<close> milliseconds pass with no user event: the timers due by then fire, oldest first.
\<close>

definition elapse :: "nat \<Rightarrow> 'a home_scheme \<Rightarrow> 'a home_scheme" where
  "elapse dt s =
     (let t = clock s + dt;
          fired = filter (\<lambda>d. d \<le> t) (close_timers s);
          s1 = s\<lparr>clock := t, close_timers := filter (\<lambda>d. t < d) (close_timers s)\<rparr>
      in fold (\<lambda>_. clear_selected) fired s1)"

text \<open>
  An animation frame: the browser runs the callbacks requested since the last one. Each calls
  \<^verbatim>\<open>closeBtnRef.current?.focus()\<close>; the ref holds the close button exactly while the dialog
  is rendered (line 228: the modal is open and a project is selected) and is \<^verbatim>\<open>null\<close>
  otherwise, when the call is skipped.
\<close>

definition close_button_rendered :: "'a home_scheme \<Rightarrow> bool" where
  "close_button_rendered s = (mounted s \<and> isModalOpen s \<and> selectedProject s \<noteq> None)"

definition animation_frame :: "'a home_scheme \<Rightarrow> 'a home_scheme" where
  "animation_frame s =
     s\<lparr>frame_requests := 0,
       focus_calls := focus_calls s + (if close_button_rendered s then frame_requests s else 0)\<rparr>"

text \<open>
  The page before React mounts anything, and the first render: the effect body runs, with no
  cleanup before it.
\<close>

definition unmounted :: "'a \<Rightarrow> 'a home_scheme" where
  "unmounted rest =
     \<lparr>selectedProject = None, isModalOpen = False, close_timers = [], clock = 0,
      body_overflow = [], keydown_listeners = [], onKeyDown = 0, next_listener = 0,
      frame_requests = 0, focus_calls = 0, mounted = False, \<dots> = rest\<rparr>"

definition mount_home :: "'a \<Rightarrow> 'a home_scheme" where
  "mount_home rest = effect_body (unmounted rest\<lparr>mounted := True\<rparr>)"

text \<open>
  Unmounting runs the cleanup of the last effect run. The close timers and the requested
  animation frames stay as they are: nothing cancels them.
\<close>

definition teardown :: "'a home_scheme \<Rightarrow> 'a home_scheme" where
  "teardown s = effect_cleanup (s\<lparr>mounted := False\<rparr>)"

text \<open>The operations on the modal, and a run of them from the mounted page.\<close>

datatype operation = Open Project | Close | Escape | Elapse nat | Frame

fun apply_operation :: "operation \<Rightarrow> 'a home_scheme \<Rightarrow> 'a home_scheme" where
  "apply_operation (Open p) s = handleProjectClick p s"
| "apply_operation Close s = handleCloseModal s"
| "apply_operation Escape s = keydown_Escape s"
| "apply_operation (Elapse dt) s = elapse dt s"
| "apply_operation Frame s = animation_frame s"

definition run_operations :: "operation list \<Rightarrow> 'a home_scheme \<Rightarrow> 'a home_scheme" where
  "run_operations ops s = fold apply_operation ops s"

subsection \<open>Rendering \<^verbatim>\<open>ProjectModal\<close>\<close>

text \<open>
  What the component returns. Reading a field of \<^verbatim>\<open>null\<close> raises a \<^verbatim>\<open>TypeError\<close> in
  JavaScript; \<open>deref\<close> is that read, so the model of the render can fail where the code can.
\<close>

datatype error = TypeError

definition deref :: "Project option \<Rightarrow> error + Project" where
  "deref project = (case project of None \<Rightarrow> Inl TypeError | Some p \<Rightarrow> Inr p)"

text \<open>
  The dialog, as far as it depends on the project: the id of the title element, the image or
  else the first letter of the title, the title, the text, the list of features and the
  notes (absent when empty), the stack, and the two links. JavaScript's truth test of a
  string is the test that it is present and not empty.
\<close>

record dialog =
  labelledby :: "string \<times> int"
  picture :: "string + string"
  heading :: string
  body_text :: string
  feature_list :: "string list option"
  build_notes :: "string option"
  stack :: "string list"
  demo_link :: "string option"
  code_link :: "string option"

definition truthy :: "string option \<Rightarrow> string option" where
  "truthy x = (case x of None \<Rightarrow> None | Some v \<Rightarrow> if v = [] then None else Some v)"

definition dialog_of :: "Project \<Rightarrow> dialog" where
  "dialog_of p =
     \<lparr>labelledby = (''project-title-'', id_p p),
      picture = (case truthy (image_p p) of Some src \<Rightarrow> Inl src | None \<Rightarrow> Inr (take 1 (title p))),
      heading = title p,
      body_text = (case truthy (fullDescription p) of Some d \<Rightarrow> d | None \<Rightarrow> description p),
      feature_list = (case features p of None \<Rightarrow> None
                      | Some fs \<Rightarrow> if 0 < length fs then Some fs else None),
      build_notes = truthy (challenges p),
      stack = technologies p,
      demo_link = truthy (demoUrl p),
      code_link = truthy (githubUrl p)\<rparr>"

text \<open>
  The render (lines 228-351): the guard of line 228, then every use of \<^verbatim>\<open>project\<close> goes
  through \<open>deref\<close>.
\<close>

definition ProjectModal :: "Project option \<Rightarrow> bool \<Rightarrow> error + dialog option" where
  "ProjectModal project isOpen =
     (if \<not> isOpen \<or> project = None then Inr None
      else case deref project of Inl e \<Rightarrow> Inl e | Inr p \<Rightarrow> Inr (Some (dialog_of p)))"

section \<open>The typewriter\<close>

subsection \<open>Data\<close>

text \<open>
  The props of \<^verbatim>\<open>TypeWriterText\<close> (lines 20-25), durations in milliseconds. The defaults of
  lines 51-53 are those of \<open>default_props\<close>.
\<close>

record TypeWriterProps =
  texts :: "string list"
  typeSpeed :: nat
  deleteSpeed :: nat
  delayBetween :: nat

definition default_props :: "string list \<Rightarrow> TypeWriterProps" where
  "default_props ts = \<lparr>texts = ts, typeSpeed = 80, deleteSpeed = 40, delayBetween = 1800\<rparr>"

text \<open>
  The state cell \<^verbatim>\<open>currentIndex\<close> holds a JavaScript number: an index, or \<^verbatim>\<open>NaN\<close> once
  \<^verbatim>\<open>% texts.length\<close> has divided by zero. \<^verbatim>\<open>texts[currentIndex]\<close> is \<^verbatim>\<open>undefined\<close>
  (\<open>None\<close>) out of range and at \<^verbatim>\<open>NaN\<close>.
\<close>

datatype index = Idx nat | NaN

fun lookup :: "string list \<Rightarrow> index \<Rightarrow> string option" where
  "lookup ts (Idx i) = (if i < length ts then Some (ts ! i) else None)"
| "lookup ts NaN = None"

text \<open>\<^verbatim>\<open>(prev + 1) % n\<close>, with \<open>n\<close> the length of \<^verbatim>\<open>texts\<close>.\<close>

fun next_index :: "index \<Rightarrow> nat \<Rightarrow> index" where
  "next_index (Idx i) n = (if n = 0 then NaN else Idx ((i + 1) mod n))"
| "next_index NaN n = NaN"

text \<open>
  The two functions the component hands to \<^verbatim>\<open>window.setTimeout\<close>. The tick (lines 62-81)
  is a closure over the \<^verbatim>\<open>displayText\<close>, \<^verbatim>\<open>currentText\<close> and \<^verbatim>\<open>isDeleting\<close> of the render
  that scheduled it; the pause callback (line 69) holds nothing.
\<close>

datatype callback = TickCb string "string option" bool | DelayCb

record timer =
  tid :: nat
  due :: nat
  cb :: callback

text \<open>
  The component instance: the three state cells, the ref \<^verbatim>\<open>delayTimer\<close>, the handle
  \<open>timeout\<close> that the cleanup of the latest effect run holds, the pending timers of the window
  with the next fresh handle (handles are positive, as the HTML standard has them), and the
  time.
\<close>

record typewriter =
  displayText :: string
  currentIndex :: index
  isDeleting :: bool
  delayTimer :: "nat option"
  timeout :: nat
  timers :: "timer list"
  next_id :: nat
  now :: nat

subsection \<open>The effect\<close>

definition clearTimeout :: "nat \<Rightarrow> typewriter \<Rightarrow> typewriter" where
  "clearTimeout h s = s\<lparr>timers := filter (\<lambda>t. tid t \<noteq> h) (timers s)\<rparr>"

text \<open>
  The cleanup (lines 83-86). \<^verbatim>\<open>if (delayTimer.current)\<close> is false for \<^verbatim>\<open>null\<close> and for the
  number 0.
\<close>

definition cleanup :: "typewriter \<Rightarrow> typewriter" where
  "cleanup s =
     (let s1 = clearTimeout (timeout s) s
      in case delayTimer s1 of
           None \<Rightarrow> s1
         | Some d \<Rightarrow> if d = 0 then s1 else clearTimeout d s1)"

text \<open>
  The delay that \<^verbatim>\<open>window.setTimeout\<close> makes of its second argument. The argument is a
  32-bit signed integer (a \<^verbatim>\<open>long\<close>): the number is taken modulo \<^verbatim>\<open>2^32\<close>, a result from
  \<^verbatim>\<open>2^31\<close> on stands for a negative number, and a negative delay counts as zero. So a
  duration below \<^verbatim>\<open>2^31\<close> ms is waited for as it is, and one of \<^verbatim>\<open>2^31\<close> ms is not waited
  for at all.
\<close>

definition setTimeout_delay :: "nat \<Rightarrow> nat" where
  "setTimeout_delay d = (let w = d mod 2 ^ 32 in if w < 2 ^ 31 then w else 0)"

text \<open>The effect body (lines 61-62 and 81): the tick is scheduled, nothing else happens yet.\<close>

definition effect :: "TypeWriterProps \<Rightarrow> typewriter \<Rightarrow> typewriter" where
  "effect c s =
     s\<lparr>timers := timers s @
          [\<lparr>tid = next_id s,
            due = now s + setTimeout_delay (if isDeleting s then deleteSpeed c else typeSpeed c),
            cb = TickCb (displayText s) (lookup (texts c) (currentIndex s)) (isDeleting s)\<rparr>],
       timeout := next_id s,
       next_id := next_id s + 1\<rparr>"

text \<open>
  The callbacks. Reading \<^verbatim>\<open>currentText.length\<close> of an \<^verbatim>\<open>undefined\<close> \<^verbatim>\<open>currentText\<close> raises a
  \<^verbatim>\<open>TypeError\<close>; \<^verbatim>\<open>substring(0, k)\<close> is \<open>take k\<close>.
\<close>

fun run_callback :: "TypeWriterProps \<Rightarrow> callback \<Rightarrow> typewriter \<Rightarrow> error + typewriter" where
  "run_callback c (TickCb dt ct del) s =
     (if \<not> del then
        (case ct of
           None \<Rightarrow> Inl TypeError
         | Some cur \<Rightarrow>
             if length dt < length cur
             then Inr (s\<lparr>displayText := take (length dt + 1) cur\<rparr>)
             else Inr (s\<lparr>delayTimer := Some (next_id s),
                         timers := timers s @
                           [\<lparr>tid = next_id s, due = now s + setTimeout_delay (delayBetween c),
                             cb = DelayCb\<rparr>],
                         next_id := next_id s + 1\<rparr>))
      else if 0 < length dt
           then Inr (s\<lparr>displayText := take (length dt - 1) dt\<rparr>)
           else Inr (s\<lparr>isDeleting := False,
                       currentIndex := next_index (currentIndex s) (length (texts c))\<rparr>))"
| "run_callback c DelayCb s = Inr (s\<lparr>isDeleting := True\<rparr>)"

subsection \<open>The event loop\<close>

text \<open>The pending timer that fires next: the earliest due, the oldest among equals.\<close>

fun next_timer :: "timer list \<Rightarrow> timer option" where
  "next_timer [] = None"
| "next_timer (t # ts) =
     (case next_timer ts of
        None \<Rightarrow> Some t
      | Some u \<Rightarrow> if due u < due t then Some u else Some t)"

text \<open>
  One turn of the loop: nothing is pending, or the next timer fires. Its callback changes the
  state cells, after which the component renders and the effect runs again (cleanup first),
  or it changes none and nothing more happens, or it throws: the exception is not caught
  anywhere, the state is left as it was and no effect runs.
\<close>

datatype outcome = Idle | Ran typewriter | Threw error typewriter

definition cells :: "typewriter \<Rightarrow> string \<times> index \<times> bool" where
  "cells s = (displayText s, currentIndex s, isDeleting s)"

definition fire :: "TypeWriterProps \<Rightarrow> typewriter \<Rightarrow> outcome" where
  "fire c s =
     (case next_timer (timers s) of
        None \<Rightarrow> Idle
      | Some t \<Rightarrow>
          (let s1 = s\<lparr>timers := remove1 t (timers s), now := max (now s) (due t)\<rparr>
           in case run_callback c (cb t) s1 of
                Inl e \<Rightarrow> Threw e s1
              | Inr s2 \<Rightarrow> Ran (if cells s2 = cells s1 then s2 else effect c (cleanup s2))))"

text \<open>The first render: the initial cells of lines 55-58, then the effect.\<close>

definition mount :: "TypeWriterProps \<Rightarrow> typewriter" where
  "mount c =
     effect c \<lparr>displayText = [], currentIndex = Idx 0, isDeleting = False, delayTimer = None,
               timeout = 0, timers = [], next_id = 1, now = 0\<rparr>"

text \<open>Unmounting runs the cleanup of the latest effect run.\<close>

definition unmount :: "typewriter \<Rightarrow> typewriter" where
  "unmount s = cleanup s"

text \<open>
  \<^verbatim>\<open>Home\<close> passes \<^verbatim>\<open>texts\<close> as an array literal, so every render of \<^verbatim>\<open>Home\<close> gives the
  effect a new dependency and it runs again with the same values. \<open>Rerender dt\<close> is such a
  render \<open>dt\<close> milliseconds from now; it can only come before the timers that are due later.
\<close>

datatype event = Fire | Rerender nat

definition state_of :: "typewriter \<Rightarrow> outcome \<Rightarrow> typewriter" where
  "state_of s r = (case r of Idle \<Rightarrow> s | Ran s' \<Rightarrow> s' | Threw e s' \<Rightarrow> s')"

definition error_of :: "outcome \<Rightarrow> error option" where
  "error_of r = (case r of Threw e s' \<Rightarrow> Some e | _ \<Rightarrow> None)"

fun apply_event :: "TypeWriterProps \<Rightarrow> event \<Rightarrow> typewriter \<Rightarrow> typewriter" where
  "apply_event c Fire s = state_of s (fire c s)"
| "apply_event c (Rerender dt) s =
     (if list_all (\<lambda>t. now s + dt \<le> due t) (timers s)
      then effect c (cleanup (s\<lparr>now := now s + dt\<rparr>))
      else s)"

definition run_events :: "TypeWriterProps \<Rightarrow> event list \<Rightarrow> typewriter \<Rightarrow> typewriter" where
  "run_events c evs s = fold (apply_event c) evs s"

text \<open>
  \<open>steps c n s\<close>: the loop runs undisturbed for \<open>n\<close> turns, each firing a timer whose callback
  returns; \<open>None\<close> when the loop falls idle or a callback throws before that.
\<close>

fun steps :: "TypeWriterProps \<Rightarrow> nat \<Rightarrow> typewriter \<Rightarrow> typewriter option" where
  "steps c 0 s = Some s"
| "steps c (Suc n) s = (case fire c s of Ran s' \<Rightarrow> steps c n s' | _ \<Rightarrow> None)"

text \<open>
  The state right after a render whose effect has just run: the one pending timer is the
  tick of this render.
\<close>

definition scheduled :: "TypeWriterProps \<Rightarrow> typewriter \<Rightarrow> bool" where
  "scheduled c s =
     (timers s =
        [\<lparr>tid = timeout s,
          due = now s + setTimeout_delay (if isDeleting s then deleteSpeed c else typeSpeed c),
          cb = TickCb (displayText s) (lookup (texts c) (currentIndex s)) (isDeleting s)\<rparr>])"

text \<open>What the component returns (line 89): a span holding \<^verbatim>\<open>displayText\<close>.\<close>

definition TypeWriterText :: "typewriter \<Rightarrow> string" where
  "TypeWriterText s = displayText s"

text \<open>What a test of the timing looks at: the time, the text and the phase.\<close>

definition observe :: "typewriter \<Rightarrow> nat \<times> string \<times> bool" where
  "observe s = (now s, displayText s, isDeleting s)"

section \<open>Example inputs\<close>

text \<open>
  The first two entries of \<^verbatim>\<open>featuredProjects\<close> (lines 371-398), and a one-text typewriter.
  The notes of the second project hold a dash outside ASCII (U+2014), written here as the
  three bytes of its UTF-8 form.
\<close>

definition project1 :: Project where
  "project1 =
     \<lparr>id_p = 1, title = ''Terracotta.ai'', description = ''Launching soon...'',
      fullDescription = Some ''Optimized nutritional planning for every busy mom out there'',
      technologies = [''React'', ''Node.js'', ''PostgreSQL'', ''Stripe'', ''Docker''],
      features = Some [''Sign-in/roles'', ''Stripe webhooks'', ''Inventory updates''],
      challenges = Some (''Keeping state tidy across checkout and webhooks. '' @
        ''Used optimistic updates and a small event log.''),
      demoUrl = Some ''https://demo.example.com'',
      githubUrl = Some ''https://github.com/yourusername/project1'',
      image_p = None\<rparr>"

definition project2 :: Project where
  "project2 =
     \<lparr>id_p = 2, title = ''Vanderbilt Machine Learning & AI Lab'',
      description = ''Research with Prof. Kong at the Vanderbilt Machine Learning Lab'',
      fullDescription = Some ''Researching deep learning'',
      technologies = [''Next.js'', ''TypeScript'', ''Prisma'', ''Socket.io'', ''PostgreSQL''],
      features = Some [''Live editing'', ''Filters'', ''File uploads''],
      challenges = Some (''Avoiding sync weirdness during concurrent edits '' @
        [CHR 0xE2, CHR 0x80, CHR 0x94] @ '' used OT-style reconciliation.''),
      demoUrl = Some ''https://demo.example.com'',
      githubUrl = Some ''https://github.com/yourusername/project2'',
      image_p = None\<rparr>"

text \<open>
  The typewriter over \<^verbatim>\<open>["ab"]\<close> with the default speeds, at the moment the text is complete:
  two ticks after the mount, at 160 ms.
\<close>

definition typed_ab :: typewriter where
  "typed_ab =
     \<lparr>displayText = ''ab'', currentIndex = Idx 0, isDeleting = False, delayTimer = None,
      timeout = 3,
      timers = [\<lparr>tid = 3, due = 240, cb = TickCb ''ab'' (Some ''ab'') False\<rparr>],
      next_id = 4, now = 160\<rparr>"

section \<open>Invariants\<close>

text \<open>
  The page while the modal is mounted: scrolling is locked and one listener is installed
  exactly when the modal is open.
\<close>

definition page_inv :: "'a home_scheme \<Rightarrow> bool" where
  "page_inv s =
     (mounted s \<and>
      keydown_listeners s = (if isModalOpen s then [onKeyDown s] else []) \<and>
      body_overflow s = (if isModalOpen s then ''hidden'' else ''unset''))"

text \<open>
  The typewriter has at most one timer pending, and it is one the cleanup knows: the tick of
  the latest effect run, or the pause timer whose handle the ref holds.
\<close>

definition pending_ok :: "typewriter \<Rightarrow> bool" where
  "pending_ok s =
     (0 < next_id s \<and>
      (case timers s of
         [] \<Rightarrow> True
       | [t] \<Rightarrow> tid t = timeout s \<or> (delayTimer s = Some (tid t) \<and> tid t \<noteq> 0)
       | _ \<Rightarrow> False))"

text \<open>The index is in range and the text shown is a prefix of the current text.\<close>

definition in_text :: "TypeWriterProps \<Rightarrow> typewriter \<Rightarrow> bool" where
  "in_text c s =
     (\<exists>i. i < length (texts c) \<and> currentIndex s = Idx i \<and> prefix (displayText s) (texts c ! i))"

text \<open>A pending tick is a closure over the values the state cells hold now.\<close>

definition tick_current :: "TypeWriterProps \<Rightarrow> typewriter \<Rightarrow> bool" where
  "tick_current c s =
     (case timers s of
        [t] \<Rightarrow> cb t = DelayCb \<or>
               cb t = TickCb (displayText s) (lookup (texts c) (currentIndex s)) (isDeleting s)
      | _ \<Rightarrow> True)"

definition tw_inv :: "TypeWriterProps \<Rightarrow> typewriter \<Rightarrow> bool" where
  "tw_inv c s = (pending_ok s \<and> in_text c s \<and> tick_current c s)"

text \<open>The length of the text changes by at most one, in the direction of the phase.\<close>

definition unit_step :: "typewriter \<Rightarrow> typewriter \<Rightarrow> bool" where
  "unit_step s s' =
     (if isDeleting s
      then length (displayText s') \<le> length (displayText s) \<and>
           length (displayText s) \<le> length (displayText s') + 1
      else length (displayText s) \<le> length (displayText s') \<and>
           length (displayText s') \<le> length (displayText s) + 1)"

text \<open>With no texts the cells never leave their initial values and every pending tick is
  a closure over an \<^verbatim>\<open>undefined\<close> current text.\<close>

definition empty_inv :: "typewriter \<Rightarrow> bool" where
  "empty_inv s =
     (displayText s = [] \<and> currentIndex s = Idx 0 \<and> isDeleting s = False \<and>
      (case timers s of [t] \<Rightarrow> cb t = TickCb [] None False | _ \<Rightarrow> True))"

lemmas home_defs = run_operations_def handleProjectClick_def handleCloseModal_def
  keydown_Escape_def elapse_def clear_selected_def commit_def rerender_def effect_body_def
  effect_cleanup_def close_updates_def mount_home_def unmounted_def teardown_def
  animation_frame_def close_button_rendered_def

lemma setTimeout_delay_id: "d < 2 ^ 31 \<Longrightarrow> setTimeout_delay d = d"
  by (simp add: setTimeout_delay_def Let_def)

lemma steps_numeral:
  "steps c (numeral k) s =
     (case fire c s of Ran s' \<Rightarrow> steps c (pred_numeral k) s' | Idle \<Rightarrow> None | Threw e s' \<Rightarrow> None)"
  by (simp add: numeral_eq_Suc split: outcome.splits)

lemma setTimeout_delay_defaults:
  "setTimeout_delay 80 = 80" "setTimeout_delay 40 = 40" "setTimeout_delay 1800 = 1800"
  by (simp_all add: setTimeout_delay_id)

lemmas tw_defs = default_props_def mount_def effect_def fire_def cleanup_def clearTimeout_def
  cells_def scheduled_def setTimeout_delay_defaults

section \<open>The modal: proofs\<close>

subsection \<open>The page invariant\<close>

lemma mounted_rerender: "mounted (rerender s) = mounted s"
  by (simp add: rerender_def effect_body_def effect_cleanup_def Let_def)

lemma page_inv_rerender:
  "mounted s \<Longrightarrow> keydown_listeners s = [] \<or> keydown_listeners s = [onKeyDown s] \<Longrightarrow>
   page_inv (rerender s)"
  by (auto simp: page_inv_def rerender_def effect_body_def effect_cleanup_def Let_def)

lemma page_inv_mount: "page_inv (mount_home rest)"
  by (simp add: page_inv_def mount_home_def unmounted_def effect_body_def Let_def)

lemma page_inv_open: "page_inv s \<Longrightarrow> page_inv (handleProjectClick p s)"
  unfolding handleProjectClick_def
  by (rule page_inv_rerender) (auto simp: page_inv_def split: if_splits)

lemma page_inv_close: "page_inv s \<Longrightarrow> page_inv (handleCloseModal s)"
  unfolding handleCloseModal_def commit_def
  apply (auto simp: close_updates_def intro!: page_inv_rerender)
     apply (auto simp: page_inv_def split: if_splits)
  done

lemma escape_eq:
  "page_inv s \<Longrightarrow> keydown_Escape s = (if isModalOpen s then handleCloseModal s else s)"
  by (auto simp: page_inv_def keydown_Escape_def handleCloseModal_def commit_def)

lemma page_inv_clear: "page_inv s \<Longrightarrow> page_inv (clear_selected s)"
  unfolding clear_selected_def commit_def
  apply (auto intro!: page_inv_rerender)
     apply (auto simp: page_inv_def split: if_splits)
  done

lemma fold_const_inv: "P s \<Longrightarrow> (\<And>s. P s \<Longrightarrow> P (f s)) \<Longrightarrow> P (fold (\<lambda>_. f) xs s)"
  by (induction xs arbitrary: s) auto

lemma page_inv_elapse: "page_inv s \<Longrightarrow> page_inv (elapse dt s)"
  unfolding elapse_def Let_def
  by (rule fold_const_inv[where P = page_inv])
     (simp_all add: page_inv_def page_inv_clear[unfolded page_inv_def])

lemma page_inv_frame: "page_inv s \<Longrightarrow> page_inv (animation_frame s)"
  by (simp add: page_inv_def animation_frame_def)

lemma page_inv_op: "page_inv s \<Longrightarrow> page_inv (apply_operation e s)"
  by (cases e)
     (simp_all add: page_inv_open page_inv_close page_inv_elapse page_inv_frame escape_eq)

lemma page_inv_run: "page_inv s \<Longrightarrow> page_inv (run_operations ops s)"
  unfolding run_operations_def
  by (induction ops arbitrary: s) (simp_all add: page_inv_op)

subsection \<open>Closing and the close timer\<close>

lemma selected_clear: "mounted s \<Longrightarrow> selectedProject (clear_selected s) = None"
  by (simp add: clear_selected_def commit_def rerender_def effect_body_def effect_cleanup_def
      Let_def)

lemma mounted_clear: "mounted (clear_selected s) = mounted s"
  by (simp add: clear_selected_def commit_def mounted_rerender)

lemma mounted_fold_clear: "mounted (fold (\<lambda>_. clear_selected) xs s) = mounted s"
  by (induction xs arbitrary: s) (simp_all add: mounted_clear)

lemma selected_fold_clear:
  "mounted s \<Longrightarrow>
   selectedProject (fold (\<lambda>_. clear_selected) xs s) =
     (if xs = [] then selectedProject s else None)"
proof (induction xs arbitrary: s rule: rev_induct)
  case Nil
  show ?case by simp
next
  case (snoc x xs)
  then show ?case by (simp add: selected_clear mounted_fold_clear)
qed

lemma open_fold_clear: "isModalOpen (fold (\<lambda>_. clear_selected) xs s) = isModalOpen s"
  by (induction xs arbitrary: s)
     (simp_all add: clear_selected_def commit_def rerender_def effect_body_def
       effect_cleanup_def Let_def)

lemma close_cells:
  "mounted s \<Longrightarrow> isModalOpen (handleCloseModal s) = False"
  "selectedProject (handleCloseModal s) = selectedProject s"
  "close_timers (handleCloseModal s) = close_timers s @ [clock s + 300]"
  "clock (handleCloseModal s) = clock s"
  "mounted (handleCloseModal s) = mounted s"
  by (simp_all add: handleCloseModal_def commit_def close_updates_def rerender_def
      effect_body_def effect_cleanup_def Let_def)

lemma selected_elapse:
  "mounted s \<Longrightarrow>
   selectedProject (elapse dt s) =
     (if filter (\<lambda>d. d \<le> clock s + dt) (close_timers s) = [] then selectedProject s else None)"
  by (simp add: elapse_def Let_def selected_fold_clear)

lemma open_elapse: "isModalOpen (elapse dt s) = isModalOpen s"
  by (simp add: elapse_def Let_def open_fold_clear)

text \<open>
  What \<^verbatim>\<open>handleCloseModal\<close> does in any state of the mounted page: the modal is closed at
  once and stays closed, the selection is untouched by the call itself and is gone once
  300 ms have passed. Before that the selection is still there exactly when no timer of an
  earlier close comes due in between.
\<close>

lemma close_then_delay:
  "mounted s \<Longrightarrow>
   isModalOpen (handleCloseModal s) = False \<and>
   selectedProject (handleCloseModal s) = selectedProject s \<and>
   selectedProject (elapse 300 (handleCloseModal s)) = None \<and>
   isModalOpen (elapse dt (handleCloseModal s)) = False \<and>
   (if list_all (\<lambda>d. clock s + dt < d) (close_timers s) \<and> dt < 300
    then selectedProject (elapse dt (handleCloseModal s)) = selectedProject s
    else selectedProject (elapse dt (handleCloseModal s)) = None)"
  by (auto simp: selected_elapse open_elapse close_cells filter_empty_conv list_all_iff
      not_less not_le)

subsection \<open>Focus and animation frames\<close>



subsection \<open>The claims about the modal\<close>

text \<open>
  Claim C1 says that in every state reachable by opening, closing, pressing Escape and
  letting time pass, an open modal has a selected project. The code does not keep this: the
  timer of \<^verbatim>\<open>handleCloseModal\<close> is never cancelled, so when a project is opened again within
  300 ms of a close, the timer of that close fires into the open modal and clears the
  selection. Here the first project is opened and closed at once, the second is opened
  100 ms later, and 200 ms after that the modal is open with no project selected.
\<close>

theorem stale_close_timer_clears_open_modal:
  "(let s = run_operations [Open project1, Close, Elapse 100, Open project2, Elapse 200]
              (mount_home ())
    in isModalOpen s \<and> selectedProject s = None)"
  by (simp add: home_defs project1_def project2_def Let_def)

text \<open>
  Claim C4 says that in every state with an open modal, closing leaves the selected project
  in place until 300 ms have passed. The uncancelled timer of an earlier close breaks this
  too: the second project is opened 100 ms after the first was closed and is itself closed
  at 200 ms; the first close's timer comes due at 300 ms, so the selection is gone 100 ms
  after the second close. (That it is closed at once, and that the selection is gone after
  300 ms, holds in every state of the mounted page: \<open>close_then_delay\<close>.)
\<close>

theorem stale_close_timer_clears_before_delay:
  "(let s = run_operations [Open project1, Close, Elapse 100, Open project2, Elapse 100]
              (mount_home ())
    in isModalOpen s \<and> selectedProject s = Some project2 \<and> clock s = 200 \<and>
       isModalOpen (handleCloseModal s) = False \<and>
       selectedProject (handleCloseModal s) = Some project2 \<and>
       selectedProject (elapse 100 (handleCloseModal s)) = None)"
  by (simp add: home_defs project1_def project2_def Let_def)

text \<open>
  Claim C7: in every reachable state, if the modal is open an Escape key press ends in the
  very state that calling \<^verbatim>\<open>handleCloseModal\<close> ends in, and if it is closed the key press
  changes nothing.
\<close>

theorem escape_is_close_while_open:
  "(let s = run_operations ops (mount_home rest)
    in if isModalOpen s then keydown_Escape s = handleCloseModal s else keydown_Escape s = s)"
  using escape_eq[OF page_inv_run[OF page_inv_mount], of ops rest] by (simp add: Let_def)



text \<open>
  Claim C10: when the modal is closed or no project is selected, \<^verbatim>\<open>ProjectModal\<close> returns
  \<^verbatim>\<open>null\<close>; a project that is there is rendered when the modal is open; no render reads a
  field of a missing project, so none fails; and an open modal with no project renders as a
  closed one does.
\<close>

theorem ProjectModal_null_unless_open_with_project:
  "(\<not> isOpen \<or> project = None \<longrightarrow> ProjectModal project isOpen = Inr None) \<and>
   (isOpen \<longrightarrow> ProjectModal (Some p) isOpen = Inr (Some (dialog_of p))) \<and>
   ProjectModal project isOpen \<noteq> Inl e \<and>
   ProjectModal None True = ProjectModal None False"
  by (cases project) (simp_all add: ProjectModal_def deref_def)

theorem ProjectModal_null_unless_open_with_project_witness:
  "ProjectModal None True = Inr None \<and>
   ProjectModal (Some project1) True = Inr (Some (dialog_of project1)) \<and>
   ProjectModal None True \<noteq> Inl TypeError"
  using ProjectModal_null_unless_open_with_project[of True None project1 TypeError] by simp

section \<open>The typewriter: proofs\<close>

subsection \<open>One cycle of an undisturbed loop\<close>

lemma steps_add:
  "steps c (m + n) s = (case steps c m s of None \<Rightarrow> None | Some s' \<Rightarrow> steps c n s')"
  by (induction m arbitrary: s) (auto split: outcome.splits)

lemma timers_cleanup_Nil: "timers s = [] \<Longrightarrow> timers (cleanup s) = []"
  by (simp add: cleanup_def clearTimeout_def Let_def split: option.splits)

lemma cleanup_fields:
  "displayText (cleanup s) = displayText s" "currentIndex (cleanup s) = currentIndex s"
  "isDeleting (cleanup s) = isDeleting s" "now (cleanup s) = now s"
  "next_id (cleanup s) = next_id s" "delayTimer (cleanup s) = delayTimer s"
  "timeout (cleanup s) = timeout s"
  by (simp_all add: cleanup_def clearTimeout_def Let_def split: option.splits)

lemma effect_fields:
  "displayText (effect c s) = displayText s" "currentIndex (effect c s) = currentIndex s"
  "isDeleting (effect c s) = isDeleting s" "now (effect c s) = now s"
  "next_id (effect c s) = next_id s + 1" "delayTimer (effect c s) = delayTimer s"
  "timeout (effect c s) = next_id s"
  by (simp_all add: effect_def)

lemma scheduled_effect: "timers s = [] \<Longrightarrow> scheduled c (effect c (cleanup s))"
  by (simp add: scheduled_def effect_def timers_cleanup_Nil cleanup_fields)

lemma fire_scheduled:
  "scheduled c s \<Longrightarrow>
   fire c s =
     (let s1 = s\<lparr>timers := [],
                 now := now s + setTimeout_delay (if isDeleting s then deleteSpeed c else typeSpeed c)\<rparr>
      in case run_callback c
                (TickCb (displayText s) (lookup (texts c) (currentIndex s)) (isDeleting s)) s1 of
           Inl e \<Rightarrow> Threw e s1
         | Inr s2 \<Rightarrow> Ran (if cells s2 = cells s1 then s2 else effect c (cleanup s2)))"
  by (simp add: scheduled_def fire_def Let_def)

lemma fire_typing:
  assumes "scheduled c s" "\<not> isDeleting s" "lookup (texts c) (currentIndex s) = Some cur"
    "length (displayText s) < length cur"
  shows "\<exists>s'. fire c s = Ran s' \<and> scheduled c s' \<and>
    displayText s' = take (length (displayText s) + 1) cur \<and>
    currentIndex s' = currentIndex s \<and> \<not> isDeleting s' \<and> now s' = now s + setTimeout_delay (typeSpeed c)"
proof -
  have ne: "take (Suc (length (displayText s))) cur \<noteq> displayText s"
  proof
    assume "take (Suc (length (displayText s))) cur = displayText s"
    from arg_cong[OF this, of length] assms(4) show False by simp
  qed
  show ?thesis
    using assms ne
    by (simp add: fire_scheduled Let_def cells_def scheduled_effect cleanup_fields effect_fields)
qed

lemma typing_run:
  "scheduled c s \<Longrightarrow> \<not> isDeleting s \<Longrightarrow> lookup (texts c) (currentIndex s) = Some cur \<Longrightarrow>
   displayText s = take k cur \<Longrightarrow> k + m = length cur \<Longrightarrow>
   \<exists>s'. steps c m s = Some s' \<and> scheduled c s' \<and> displayText s' = cur \<and>
     currentIndex s' = currentIndex s \<and> \<not> isDeleting s' \<and> now s' = now s + m * setTimeout_delay (typeSpeed c)"
proof (induction m arbitrary: s k)
  case 0
  then show ?case by simp
next
  case (Suc m)
  from Suc.prems have len: "length (displayText s) = k" and lt: "k < length cur" by auto
  from fire_typing[OF Suc.prems(1-3)] len lt obtain s1 where
    s1: "fire c s = Ran s1" "scheduled c s1" "displayText s1 = take (k + 1) cur"
      "currentIndex s1 = currentIndex s" "\<not> isDeleting s1" "now s1 = now s + setTimeout_delay (typeSpeed c)"
    by auto
  from Suc.IH[of s1 "k + 1"] s1 Suc.prems obtain s' where
    "steps c m s1 = Some s'" "scheduled c s'" "displayText s' = cur"
    "currentIndex s' = currentIndex s1" "\<not> isDeleting s'" "now s' = now s1 + m * setTimeout_delay (typeSpeed c)"
    by auto
  with s1 show ?case by simp
qed

lemma pause_run:
  assumes "scheduled c s" "\<not> isDeleting s" "lookup (texts c) (currentIndex s) = Some cur"
    "displayText s = cur"
  shows "\<exists>s1 s'. fire c s = Ran s1 \<and> \<not> isDeleting s1 \<and> displayText s1 = cur \<and>
      now s1 = now s + setTimeout_delay (typeSpeed c) \<and>
      fire c s1 = Ran s' \<and> scheduled c s' \<and> displayText s' = cur \<and>
      currentIndex s' = currentIndex s \<and> isDeleting s' \<and>
      now s' = now s + setTimeout_delay (typeSpeed c) + setTimeout_delay (delayBetween c)"
  using assms
  by (simp add: fire_scheduled Let_def cells_def)
     (simp add: fire_def Let_def cells_def scheduled_effect cleanup_fields effect_fields)

lemma fire_deleting:
  assumes "scheduled c s" "isDeleting s" "0 < length (displayText s)"
  shows "\<exists>s'. fire c s = Ran s' \<and> scheduled c s' \<and>
    displayText s' = take (length (displayText s) - 1) (displayText s) \<and>
    currentIndex s' = currentIndex s \<and> isDeleting s' \<and> now s' = now s + setTimeout_delay (deleteSpeed c)"
proof -
  have ne: "take (length (displayText s) - 1) (displayText s) \<noteq> displayText s"
  proof
    assume "take (length (displayText s) - 1) (displayText s) = displayText s"
    from arg_cong[OF this, of length] assms(3) show False by (cases "displayText s") simp_all
  qed
  show ?thesis
    using assms ne
    by (simp add: fire_scheduled Let_def cells_def scheduled_effect cleanup_fields effect_fields)
qed

lemma deleting_run:
  "scheduled c s \<Longrightarrow> isDeleting s \<Longrightarrow> length (displayText s) = k \<Longrightarrow>
   \<exists>s'. steps c k s = Some s' \<and> scheduled c s' \<and> displayText s' = [] \<and>
     currentIndex s' = currentIndex s \<and> isDeleting s' \<and> now s' = now s + k * setTimeout_delay (deleteSpeed c)"
proof (induction k arbitrary: s)
  case 0
  then show ?case by simp
next
  case (Suc k)
  from fire_deleting[OF Suc.prems(1,2)] Suc.prems(3) obtain s1 where
    s1: "fire c s = Ran s1" "scheduled c s1" "displayText s1 = take k (displayText s)"
      "currentIndex s1 = currentIndex s" "isDeleting s1" "now s1 = now s + setTimeout_delay (deleteSpeed c)"
    by auto
  have "length (displayText s1) = k" using s1(3) Suc.prems(3) by simp
  from Suc.IH[OF s1(2) s1(5) this] obtain s' where
    "steps c k s1 = Some s'" "scheduled c s'" "displayText s' = []"
    "currentIndex s' = currentIndex s1" "isDeleting s'" "now s' = now s1 + k * setTimeout_delay (deleteSpeed c)"
    by auto
  with s1 show ?case by simp
qed

lemma fire_switch:
  assumes "scheduled c s" "isDeleting s" "displayText s = []" "currentIndex s = Idx i"
    "texts c \<noteq> []"
  shows "\<exists>s'. fire c s = Ran s' \<and> scheduled c s' \<and> displayText s' = [] \<and>
    currentIndex s' = Idx ((i + 1) mod length (texts c)) \<and> \<not> isDeleting s' \<and>
    now s' = now s + setTimeout_delay (deleteSpeed c)"
  using assms
  by (simp add: fire_scheduled Let_def cells_def scheduled_effect cleanup_fields effect_fields)

subsection \<open>The pending timers\<close>

lemma pending_ok_cleanup: "pending_ok s \<Longrightarrow> timers (cleanup s) = []"
  by (auto simp: pending_ok_def cleanup_def clearTimeout_def Let_def
      split: list.splits option.splits)

lemma pending_ok_effect: "timers s = [] \<Longrightarrow> pending_ok (effect c s)"
  by (simp add: pending_ok_def effect_def)

lemma pending_ok_rerun: "pending_ok s \<Longrightarrow> pending_ok (effect c (cleanup s))"
  by (simp add: pending_ok_effect pending_ok_cleanup)

lemma pending_ok_mount: "pending_ok (mount c)"
  by (simp add: mount_def pending_ok_effect)

lemma next_timer_single: "next_timer [t] = Some t"
  by simp

lemma pending_ok_callback:
  "0 < next_id s \<Longrightarrow> timers s = [] \<Longrightarrow> run_callback c k s = Inr s2 \<Longrightarrow>
   pending_ok (if cells s2 = cells s then s2 else effect c (cleanup s2))"
  by (cases k)
     (auto simp: pending_ok_def cells_def effect_def cleanup_def clearTimeout_def Let_def
       split: if_splits option.splits)

lemma pending_ok_fire: "pending_ok s \<Longrightarrow> pending_ok (state_of s (fire c s))"
proof (cases "timers s")
  case Nil
  assume "pending_ok s"
  with Nil show ?thesis by (simp add: fire_def state_of_def)
next
  case (Cons t ts)
  assume ok: "pending_ok s"
  with Cons have ts: "ts = []" by (simp add: pending_ok_def split: list.splits)
  let ?s1 = "s\<lparr>timers := [], now := max (now s) (due t)\<rparr>"
  have s1: "0 < next_id ?s1" "timers ?s1 = []" using ok by (simp_all add: pending_ok_def)
  show ?thesis
  proof (cases "run_callback c (cb t) ?s1")
    case (Inl e)
    with Cons ts ok show ?thesis
      by (simp add: fire_def state_of_def Let_def pending_ok_def)
  next
    case (Inr s2)
    from pending_ok_callback[OF s1 Inr] Cons ts Inr show ?thesis
      by (simp add: fire_def state_of_def Let_def)
  qed
qed

lemma pending_ok_event: "pending_ok s \<Longrightarrow> pending_ok (apply_event c e s)"
proof (cases e)
  case Fire
  assume "pending_ok s"
  with Fire show ?thesis by (simp add: pending_ok_fire)
next
  case (Rerender dt)
  assume ok: "pending_ok s"
  then have "pending_ok (s\<lparr>now := now s + dt\<rparr>)"
    by (simp add: pending_ok_def split: list.splits)
  with ok Rerender show ?thesis by (simp add: pending_ok_rerun)
qed

lemma pending_ok_run: "pending_ok s \<Longrightarrow> pending_ok (run_events c evs s)"
  unfolding run_events_def
  by (induction evs arbitrary: s) (simp_all add: pending_ok_event)

lemma fire_Idle: "timers s = [] \<Longrightarrow> fire c s = Idle"
  by (simp add: fire_def)

lemma replicate_Fire_Idle: "timers s = [] \<Longrightarrow> run_events c (replicate n Fire) s = s"
  unfolding run_events_def
  by (induction n) (simp_all add: fire_Idle state_of_def)

subsection \<open>The text shown\<close>

lemma tick_current_effect: "timers s = [] \<Longrightarrow> tick_current c (effect c s)"
  by (simp add: tick_current_def effect_def)

lemma in_text_rerun: "in_text c (effect c (cleanup s)) = in_text c s"
  by (simp add: in_text_def effect_fields cleanup_fields)

lemma tw_inv_rerun: "pending_ok s \<Longrightarrow> in_text c s \<Longrightarrow> tw_inv c (effect c (cleanup s))"
  by (simp add: tw_inv_def pending_ok_rerun in_text_rerun tick_current_effect pending_ok_cleanup)

lemma tw_inv_mount: "texts c \<noteq> [] \<Longrightarrow> tw_inv c (mount c)"
  by (simp add: tw_inv_def pending_ok_mount)
     (simp add: mount_def in_text_def tick_current_def effect_def)

text \<open>What one callback does to a state that has no pending timer.\<close>

lemma in_text_callback:
  assumes "in_text c s" "run_callback c k s = Inr s2"
    "k = DelayCb \<or> k = TickCb (displayText s) (lookup (texts c) (currentIndex s)) (isDeleting s)"
  shows "in_text c s2"
proof -
  from assms(1) obtain i where i: "i < length (texts c)" "currentIndex s = Idx i"
    "prefix (displayText s) (texts c ! i)" by (auto simp: in_text_def)
  from assms(3) show ?thesis
  proof
    assume "k = DelayCb"
    with assms(2) i show ?thesis by (auto simp: in_text_def)
  next
    assume k: "k = TickCb (displayText s) (lookup (texts c) (currentIndex s)) (isDeleting s)"
    have p1: "prefix (take n (texts c ! i)) (texts c ! i)" for n by (rule take_is_prefix)
    have p2: "prefix (take n (displayText s)) (texts c ! i)" for n
      using take_is_prefix i(3) by (rule prefix_order.trans)
    have "0 < length (texts c)" using i(1) by (cases "texts c") simp_all
    then have m: "(i + 1) mod length (texts c) < length (texts c)" by (rule mod_less_divisor)
    from assms(2) k i p1 p2 m show ?thesis
      by (auto simp: in_text_def split: if_splits)
  qed
qed

lemma tick_current_callback:
  "timers s = [] \<Longrightarrow> run_callback c k s = Inr s2 \<Longrightarrow> cells s2 = cells s \<Longrightarrow> tick_current c s2"
  by (cases k) (auto simp: tick_current_def cells_def split: if_splits option.splits)

lemma tw_inv_fire: assumes "tw_inv c s" shows "tw_inv c (state_of s (fire c s))"
proof (cases "timers s")
  case Nil
  with assms show ?thesis by (simp add: fire_def state_of_def)
next
  case (Cons t ts)
  from assms have ok: "pending_ok s" and it: "in_text c s" and tc: "tick_current c s"
    by (simp_all add: tw_inv_def)
  from ok Cons have ts: "ts = []" by (simp add: pending_ok_def split: list.splits)
  let ?s1 = "s\<lparr>timers := [], now := max (now s) (due t)\<rparr>"
  have s1: "0 < next_id ?s1" "timers ?s1 = []" using ok by (simp_all add: pending_ok_def)
  have it1: "in_text c ?s1" using it by (simp add: in_text_def)
  have k: "cb t = DelayCb \<or>
     cb t = TickCb (displayText ?s1) (lookup (texts c) (currentIndex ?s1)) (isDeleting ?s1)"
    using tc Cons ts by (simp add: tick_current_def)
  show ?thesis
  proof (cases "run_callback c (cb t) ?s1")
    case (Inl e)
    with Cons ts assms show ?thesis
      by (simp add: fire_def state_of_def Let_def tw_inv_def pending_ok_def in_text_def
          tick_current_def)
  next
    case (Inr s2)
    let ?s3 = "if cells s2 = cells ?s1 then s2 else effect c (cleanup s2)"
    have a: "pending_ok ?s3" by (rule pending_ok_callback[OF s1 Inr])
    have it2: "in_text c s2" by (rule in_text_callback[OF it1 Inr k])
    have b: "in_text c ?s3" using it2 by (simp add: in_text_rerun)
    have t2: "timers (cleanup s2) = []"
    proof (cases "cells s2 = cells ?s1")
      case True
      from pending_ok_callback[OF s1 Inr] True show ?thesis by (simp add: pending_ok_cleanup)
    next
      case False
      have "timers s2 = []" using Inr False s1(2)
        by (cases "cb t") (auto simp: cells_def split: if_splits option.splits)
      then show ?thesis by (rule timers_cleanup_Nil)
    qed
    have d: "tick_current c ?s3"
      using tick_current_callback[OF s1(2) Inr] tick_current_effect[OF t2] by simp
    from a b d Cons ts Inr show ?thesis
      by (simp add: fire_def state_of_def Let_def tw_inv_def)
  qed
qed

lemma tw_inv_event: assumes "tw_inv c s" shows "tw_inv c (apply_event c e s)"
proof (cases e)
  case Fire
  with assms show ?thesis by (simp add: tw_inv_fire)
next
  case (Rerender dt)
  from assms have "pending_ok (s\<lparr>now := now s + dt\<rparr>)" "in_text c (s\<lparr>now := now s + dt\<rparr>)"
    by (simp_all add: tw_inv_def pending_ok_def in_text_def split: list.splits)
  then have "tw_inv c (effect c (cleanup (s\<lparr>now := now s + dt\<rparr>)))" by (rule tw_inv_rerun)
  with assms Rerender show ?thesis by simp
qed

lemma tw_inv_run: "tw_inv c s \<Longrightarrow> tw_inv c (run_events c evs s)"
  unfolding run_events_def
  by (induction evs arbitrary: s) (simp_all add: tw_inv_event)

lemma unit_step_rerun: "unit_step s (effect c (cleanup s')) = unit_step s s'"
  by (simp add: unit_step_def effect_fields cleanup_fields)

lemma unit_step_callback:
  assumes "run_callback c k s = Inr s2"
    "k = DelayCb \<or> k = TickCb (displayText s) (lookup (texts c) (currentIndex s)) (isDeleting s)"
  shows "unit_step s s2"
  using assms by (auto simp: unit_step_def split: if_splits option.splits)

lemma unit_step_fire: assumes "tw_inv c s" shows "unit_step s (state_of s (fire c s))"
proof (cases "timers s")
  case Nil
  then show ?thesis by (simp add: fire_def state_of_def unit_step_def)
next
  case (Cons t ts)
  from assms have ok: "pending_ok s" and tc: "tick_current c s" by (simp_all add: tw_inv_def)
  from ok Cons have ts: "ts = []" by (simp add: pending_ok_def split: list.splits)
  let ?s1 = "s\<lparr>timers := [], now := max (now s) (due t)\<rparr>"
  have k: "cb t = DelayCb \<or>
     cb t = TickCb (displayText ?s1) (lookup (texts c) (currentIndex ?s1)) (isDeleting ?s1)"
    using tc Cons ts by (simp add: tick_current_def)
  have same: "unit_step s x = unit_step ?s1 x" for x by (simp add: unit_step_def)
  show ?thesis
  proof (cases "run_callback c (cb t) ?s1")
    case (Inl e)
    with Cons ts show ?thesis by (simp add: fire_def state_of_def Let_def unit_step_def)
  next
    case (Inr s2)
    from unit_step_callback[OF Inr k] Cons ts Inr show ?thesis
      by (simp add: fire_def state_of_def Let_def same unit_step_rerun)
  qed
qed

lemma unit_step_event: "tw_inv c s \<Longrightarrow> unit_step s (apply_event c e s)"
  by (cases e) (simp_all add: unit_step_fire unit_step_rerun, simp add: unit_step_def)

subsection \<open>No texts\<close>

lemma empty_inv_rerun:
  "texts c = [] \<Longrightarrow> pending_ok s \<Longrightarrow> empty_inv s \<Longrightarrow> empty_inv (effect c (cleanup s))"
  by (simp add: empty_inv_def cleanup_fields effect_fields)
     (simp add: effect_def pending_ok_cleanup cleanup_fields)

lemma fire_empty:
  assumes "pending_ok s" "empty_inv s"
  shows "fire c s = (if timers s = [] then Idle
                     else Threw TypeError (s\<lparr>timers := [], now := max (now s) (due (hd (timers s)))\<rparr>))"
proof (cases "timers s")
  case Nil
  then show ?thesis by (simp add: fire_def)
next
  case (Cons t ts)
  from assms(1) Cons have ts: "ts = []" by (simp add: pending_ok_def split: list.splits)
  from assms(2) Cons ts have "cb t = TickCb [] None False" by (simp add: empty_inv_def)
  with Cons ts show ?thesis by (simp add: fire_def Let_def)
qed

lemma empty_inv_event:
  assumes "texts c = []" "pending_ok s" "empty_inv s"
  shows "empty_inv (apply_event c e s)"
proof (cases e)
  case Fire
  with assms show ?thesis
    by (simp add: fire_empty state_of_def) (simp add: empty_inv_def)
next
  case (Rerender dt)
  from assms have "pending_ok (s\<lparr>now := now s + dt\<rparr>)" "empty_inv (s\<lparr>now := now s + dt\<rparr>)"
    by (simp_all add: pending_ok_def empty_inv_def split: list.splits)
  with assms(1) have "empty_inv (effect c (cleanup (s\<lparr>now := now s + dt\<rparr>)))"
    by (simp add: empty_inv_rerun)
  with assms Rerender show ?thesis by simp
qed

lemma empty_inv_run:
  "texts c = [] \<Longrightarrow> pending_ok s \<Longrightarrow> empty_inv s \<Longrightarrow>
   pending_ok (run_events c evs s) \<and> empty_inv (run_events c evs s)"
  unfolding run_events_def
  by (induction evs arbitrary: s) (simp_all add: empty_inv_event pending_ok_event)

lemma empty_inv_mount: "texts c = [] \<Longrightarrow> empty_inv (mount c)"
  by (simp add: empty_inv_def mount_def effect_def)

subsection \<open>The claims about the typewriter\<close>

text \<open>
  Claim C2 as stated fails: with no texts a tick is not a no-op. The first tick after the
  mount reads \<^verbatim>\<open>currentText.length\<close> of an \<^verbatim>\<open>undefined\<close> current text and throws a
  \<^verbatim>\<open>TypeError\<close> out of the timer callback.
\<close>

theorem empty_texts_tick_throws:
  "error_of (fire (default_props []) (mount (default_props []))) = Some TypeError"
  by (simp add: tw_defs error_of_def Let_def)

text \<open>
  Claim C2, amended: with no texts the component shows the empty text in every reachable
  state; a turn of the loop finds no timer pending or fires a tick that throws a
  \<^verbatim>\<open>TypeError\<close>; either way the text stays empty and no timer is pending afterwards, so the
  loop is idle until the parent renders again.
\<close>

theorem empty_texts_shows_nothing_and_ticks_throw:
  "texts c = [] \<Longrightarrow>
   (let s = run_events c evs (mount c)
    in TypeWriterText s = [] \<and>
       (if timers s = [] then fire c s = Idle else error_of (fire c s) = Some TypeError) \<and>
       TypeWriterText (apply_event c Fire s) = [] \<and>
       timers (apply_event c Fire s) = [])"
proof -
  assume e: "texts c = []"
  let ?s = "run_events c evs (mount c)"
  from empty_inv_run[OF e pending_ok_mount empty_inv_mount[OF e], of evs]
  have ok: "pending_ok ?s" and inv: "empty_inv ?s" by simp_all
  from inv have d: "displayText ?s = []" by (simp add: empty_inv_def)
  show ?thesis
    using d
    by (simp add: Let_def TypeWriterText_def fire_empty[OF ok inv] error_of_def state_of_def)
qed

theorem empty_texts_shows_nothing_and_ticks_throw_witness:
  "texts (default_props []) = [] \<and>
   TypeWriterText
     (run_events (default_props []) [Fire, Rerender 5, Fire] (mount (default_props []))) = [] \<and>
   error_of (fire (default_props [])
     (run_events (default_props []) [Rerender 5] (mount (default_props [])))) = Some TypeError \<and>
   fire (default_props [])
     (run_events (default_props []) [Fire] (mount (default_props []))) = Idle"
proof -
  have e: "texts (default_props []) = []" by (simp add: default_props_def)
  have t1: "timers (run_events (default_props []) [Rerender 5] (mount (default_props []))) \<noteq> []"
    by (simp add: run_events_def tw_defs Let_def)
  have t2: "timers (run_events (default_props []) [Fire] (mount (default_props []))) = []"
    by (simp add: run_events_def tw_defs state_of_def Let_def)
  from empty_texts_shows_nothing_and_ticks_throw[OF e, of "[Fire, Rerender 5, Fire]"]
    empty_texts_shows_nothing_and_ticks_throw[OF e, of "[Rerender 5]"]
    empty_texts_shows_nothing_and_ticks_throw[OF e, of "[Fire]"] e t1 t2
  show ?thesis by (simp add: Let_def)
qed

text \<open>
  Claim C3: for an index \<open>i\<close> into the texts, from the state typing at \<open>i\<close> with the empty
  text and its tick scheduled, the undisturbed loop types the text in as many turns as it
  has characters, takes two turns for the pause (after which it is deleting the full text),
  and deletes it and moves on in one turn more than it has characters. It is then typing at
  \<open>(i + 1) mod n\<close> with the empty text and its tick scheduled, after \<open>2 L + 3\<close> turns.
\<close>

theorem full_cycle_advances_index:
  assumes "i < length (texts c)" "scheduled c s" "displayText s = []" "currentIndex s = Idx i"
    "\<not> isDeleting s"
  shows "\<exists>s1 s2 s'.
    steps c (length (texts c ! i)) s = Some s1 \<and>
      displayText s1 = texts c ! i \<and> \<not> isDeleting s1 \<and>
    steps c 2 s1 = Some s2 \<and> displayText s2 = texts c ! i \<and> isDeleting s2 \<and>
    steps c (length (texts c ! i) + 1) s2 = Some s' \<and>
    steps c (2 * length (texts c ! i) + 3) s = Some s' \<and>
    scheduled c s' \<and> displayText s' = [] \<and>
    currentIndex s' = Idx ((i + 1) mod length (texts c)) \<and> \<not> isDeleting s'"
proof -
  let ?cur = "texts c ! i"
  let ?L = "length ?cur"
  have lk: "lookup (texts c) (currentIndex s) = Some ?cur" using assms by simp
  have ne: "texts c \<noteq> []" using assms(1) by auto
  from typing_run[OF assms(2,5) lk, of 0 ?L] assms(3) obtain s1 where
    s1: "steps c ?L s = Some s1" "scheduled c s1" "displayText s1 = ?cur"
      "currentIndex s1 = Idx i" "\<not> isDeleting s1"
    using assms(4) by auto
  have lk1: "lookup (texts c) (currentIndex s1) = Some ?cur" using s1(4) assms(1) by simp
  from pause_run[OF s1(2) s1(5) lk1 s1(3)] obtain s2 where
    s2: "steps c 2 s1 = Some s2" "scheduled c s2" "displayText s2 = ?cur"
      "currentIndex s2 = Idx i" "isDeleting s2"
    using s1(4) by (auto simp: numeral_2_eq_2)
  from deleting_run[OF s2(2) s2(5), of ?L] s2 obtain s3 where
    s3: "steps c ?L s2 = Some s3" "scheduled c s3" "displayText s3 = []"
      "currentIndex s3 = Idx i" "isDeleting s3"
    by auto
  from fire_switch[OF s3(2) s3(5) s3(3) s3(4) ne] obtain s4 where
    s4: "steps c 1 s3 = Some s4" "scheduled c s4" "displayText s4 = []"
      "currentIndex s4 = Idx ((i + 1) mod length (texts c))" "\<not> isDeleting s4"
    by auto
  have d: "steps c (?L + 1) s2 = Some s4"
    using s3(1) s4(1) by (simp only: steps_add option.case)
  have "2 * ?L + 3 = ?L + (2 + (?L + 1))" by simp
  then have a: "steps c (2 * ?L + 3) s = Some s4"
    using s1(1) s2(1) d by (simp only: steps_add option.case)
  from s1 s2 d a s4 show ?thesis by blast
qed

text \<open>
  The cycle at work over the two texts \<^verbatim>\<open>["ab", "c"]\<close>: from the mount, seven turns end
  typing at index 1, and from there five more turns end typing at index 0 again.
\<close>

theorem full_cycle_advances_index_witness:
  "0 < length (texts (default_props [''ab'', ''c''])) \<and>
   scheduled (default_props [''ab'', ''c'']) (mount (default_props [''ab'', ''c''])) \<and>
   displayText (mount (default_props [''ab'', ''c''])) = [] \<and>
   currentIndex (mount (default_props [''ab'', ''c''])) = Idx 0 \<and>
   isDeleting (mount (default_props [''ab'', ''c''])) = False \<and>
   (\<exists>s' s''.
      steps (default_props [''ab'', ''c'']) 7 (mount (default_props [''ab'', ''c''])) = Some s' \<and>
      scheduled (default_props [''ab'', ''c'']) s' \<and> displayText s' = [] \<and>
      currentIndex s' = Idx 1 \<and> isDeleting s' = False \<and>
      steps (default_props [''ab'', ''c'']) 5 s' = Some s'' \<and>
      scheduled (default_props [''ab'', ''c'']) s'' \<and> displayText s'' = [] \<and>
      currentIndex s'' = Idx 0 \<and> isDeleting s'' = False)"
proof -
  let ?c = "default_props [''ab'', ''c'']"
  have h: "0 < length (texts ?c)" "scheduled ?c (mount ?c)" "displayText (mount ?c) = []"
    "currentIndex (mount ?c) = Idx 0" "\<not> isDeleting (mount ?c)"
    by (simp_all add: tw_defs)
  have n0: "2 * length (texts ?c ! 0) + 3 = 7" "(0 + 1) mod length (texts ?c) = 1"
    by (simp_all add: default_props_def)
  have n1: "1 < length (texts ?c)" "2 * length (texts ?c ! 1) + 3 = 5"
    "(1 + 1) mod length (texts ?c) = 0"
    by (simp_all add: default_props_def)
  from full_cycle_advances_index[OF h] obtain s' where
    s': "steps ?c 7 (mount ?c) = Some s'" "scheduled ?c s'" "displayText s' = []"
    "currentIndex s' = Idx 1" "\<not> isDeleting s'"
    unfolding n0 by blast
  from full_cycle_advances_index[OF n1(1) s'(2,3,4,5)] obtain s'' where
    "steps ?c 5 s' = Some s''" "scheduled ?c s''" "displayText s'' = []"
    "currentIndex s'' = Idx 0" "\<not> isDeleting s''"
    unfolding n1 by blast
  with h s' show ?thesis by blast
qed

text \<open>
  Claim C5 as stated fails: the wait from the moment the text is complete to the deleting
  phase is longer than \<^verbatim>\<open>delayBetween\<close>. Over \<^verbatim>\<open>["ab"]\<close> with the default speeds the text is
  complete at 160 ms; the next turn of the loop, at 240 ms, is the tick that starts the pause
  timer, and the turn after it, at 2040 ms, is the pause timer, which starts the deleting:
  1880 ms after the text was complete, with \<^verbatim>\<open>delayBetween\<close> at 1800.
\<close>

theorem pause_longer_than_delayBetween:
  "map_option observe (steps (default_props [''ab'']) 2 (mount (default_props [''ab''])))
     = Some (160, ''ab'', False) \<and>
   map_option observe (steps (default_props [''ab'']) 3 (mount (default_props [''ab''])))
     = Some (240, ''ab'', False) \<and>
   map_option observe (steps (default_props [''ab'']) 4 (mount (default_props [''ab''])))
     = Some (2040, ''ab'', True) \<and>
   160 + delayBetween (default_props [''ab'']) < 2040"
  by (simp add: tw_defs observe_def Let_def steps_numeral)

text \<open>
  Claim C5, amended: let \<^verbatim>\<open>typeSpeed\<close> and \<^verbatim>\<open>delayBetween\<close> be below \<^verbatim>\<open>2^31\<close> ms, the
  delays that \<^verbatim>\<open>setTimeout\<close> waits for as they are. From the state typing with the text
  complete and its tick scheduled, the next turn of the undisturbed loop comes \<^verbatim>\<open>typeSpeed\<close>
  later, leaves text and phase as they are and starts the pause timer; the turn after it
  comes exactly \<^verbatim>\<open>delayBetween\<close> after that, and with it the typewriter is deleting, the
  text still complete and the first deleting tick scheduled.
\<close>

theorem pause_is_one_tick_plus_delayBetween:
  assumes "scheduled c s" "\<not> isDeleting s"
    "lookup (texts c) (currentIndex s) = Some (displayText s)"
    "typeSpeed c < 2 ^ 31" "delayBetween c < 2 ^ 31"
  shows "\<exists>s1 s2. fire c s = Ran s1 \<and> observe s1 = (now s + typeSpeed c, displayText s, False) \<and>
      fire c s1 = Ran s2 \<and> observe s2 = (now s1 + delayBetween c, displayText s, True) \<and>
      scheduled c s2 \<and> currentIndex s2 = currentIndex s \<and>
      steps c 2 s = Some s2"
proof -
  from pause_run[OF assms(1-3) refl] obtain s1 s2 where
    "fire c s = Ran s1" "\<not> isDeleting s1" "displayText s1 = displayText s"
    "now s1 = now s + setTimeout_delay (typeSpeed c)" "fire c s1 = Ran s2" "scheduled c s2"
    "displayText s2 = displayText s" "currentIndex s2 = currentIndex s" "isDeleting s2"
    "now s2 = now s + setTimeout_delay (typeSpeed c) + setTimeout_delay (delayBetween c)"
    by blast
  then show ?thesis
    by (simp add: observe_def numeral_2_eq_2 setTimeout_delay_id[OF assms(4)]
        setTimeout_delay_id[OF assms(5)])
qed

theorem pause_is_one_tick_plus_delayBetween_witness:
  "steps (default_props [''ab'']) 2 (mount (default_props [''ab''])) = Some typed_ab \<and>
   scheduled (default_props [''ab'']) typed_ab \<and> isDeleting typed_ab = False \<and>
   lookup (texts (default_props [''ab''])) (currentIndex typed_ab)
     = Some (displayText typed_ab) \<and>
   typeSpeed (default_props [''ab'']) < 2 ^ 31 \<and>
   delayBetween (default_props [''ab'']) < 2 ^ 31 \<and>
   (\<exists>s2. steps (default_props [''ab'']) 2 typed_ab = Some s2 \<and>
      observe s2 = (2040, ''ab'', True))"
proof -
  have a: "steps (default_props [''ab'']) 2 (mount (default_props [''ab''])) = Some typed_ab"
    by (simp add: tw_defs typed_ab_def Let_def steps_numeral)
  have b: "scheduled (default_props [''ab'']) typed_ab"
    by (simp add: tw_defs typed_ab_def)
  have c: "\<not> isDeleting typed_ab" by (simp add: typed_ab_def)
  have d: "lookup (texts (default_props [''ab''])) (currentIndex typed_ab)
     = Some (displayText typed_ab)"
    by (simp add: default_props_def typed_ab_def)
  have e: "typeSpeed (default_props [''ab'']) < 2 ^ 31"
    "delayBetween (default_props [''ab'']) < 2 ^ 31"
    by (simp_all add: default_props_def)
  from pause_is_one_tick_plus_delayBetween[OF b c d e] obtain s1 s2 where
    "observe s1 = (now typed_ab + typeSpeed (default_props [''ab'']), displayText typed_ab, False)"
    "observe s2 = (now s1 + delayBetween (default_props [''ab'']), displayText typed_ab, True)"
    "steps (default_props [''ab'']) 2 typed_ab = Some s2"
    by blast
  then have "steps (default_props [''ab'']) 2 typed_ab = Some s2 \<and>
      observe s2 = (2040, ''ab'', True)"
    by (simp add: observe_def default_props_def typed_ab_def)
  with a b c d e show ?thesis by blast
qed

text \<open>
  Claim C6: whatever timers fired and however often the parent rendered since the mount,
  after the unmount no timer is pending, so the loop is idle and no number of further turns
  changes the state.
\<close>

theorem unmount_cancels_every_timer:
  "(let u = unmount (run_events c evs (mount c))
    in timers u = [] \<and> fire c u = Idle \<and> run_events c (replicate n Fire) u = u)"
proof -
  have "timers (unmount (run_events c evs (mount c))) = []"
    unfolding unmount_def
    by (rule pending_ok_cleanup) (rule pending_ok_run, rule pending_ok_mount)
  then show ?thesis by (simp add: Let_def fire_Idle replicate_Fire_Idle)
qed

text \<open>
  Claim C8: when there is a text, in every reachable state the index is in range and the
  text shown is a prefix of the current text, so no longer than it; and over any one event
  the length of the text shown changes by at most one, never shrinking in the typing phase
  and never growing in the deleting phase.
\<close>

theorem displayText_prefix_and_unit_steps:
  "texts c \<noteq> [] \<Longrightarrow>
   (let s = run_events c evs (mount c); s' = apply_event c e s
    in (\<exists>i. i < length (texts c) \<and> currentIndex s = Idx i \<and>
             prefix (displayText s) (texts c ! i) \<and>
             length (displayText s) \<le> length (texts c ! i)) \<and>
       (if isDeleting s
        then length (displayText s') \<le> length (displayText s) \<and>
             length (displayText s) \<le> length (displayText s') + 1
        else length (displayText s) \<le> length (displayText s') \<and>
             length (displayText s') \<le> length (displayText s) + 1))"
proof -
  assume "texts c \<noteq> []"
  then have inv: "tw_inv c (run_events c evs (mount c))"
    by (intro tw_inv_run tw_inv_mount)
  then have "in_text c (run_events c evs (mount c))" by (simp add: tw_inv_def)
  then have a: "\<exists>i. i < length (texts c) \<and> currentIndex (run_events c evs (mount c)) = Idx i \<and>
             prefix (displayText (run_events c evs (mount c))) (texts c ! i) \<and>
             length (displayText (run_events c evs (mount c))) \<le> length (texts c ! i)"
    by (auto simp: in_text_def dest: prefix_length_le)
  from unit_step_event[OF inv, of e] a show ?thesis
    by (simp add: Let_def unit_step_def)
qed

theorem displayText_prefix_and_unit_steps_witness:
  "texts (default_props [''ab'']) \<noteq> [] \<and>
   currentIndex (run_events (default_props [''ab'']) [Fire] (mount (default_props [''ab'']))) = Idx 0 \<and>
   prefix (displayText (run_events (default_props [''ab'']) [Fire] (mount (default_props [''ab'']))))
     (texts (default_props [''ab'']) ! 0) \<and>
   length (displayText (apply_event (default_props [''ab'']) Fire
       (run_events (default_props [''ab'']) [Fire] (mount (default_props [''ab''])))))
     \<le> length (displayText (run_events (default_props [''ab'']) [Fire] (mount (default_props [''ab''])))) + 1"
proof -
  let ?c = "default_props [''ab'']"
  let ?s = "run_events ?c [Fire] (mount ?c)"
  have e: "texts ?c \<noteq> []" by (simp add: default_props_def)
  have nd: "\<not> isDeleting ?s"
    by (simp add: run_events_def state_of_def tw_defs Let_def)
  from displayText_prefix_and_unit_steps[OF e, of "[Fire]" Fire]
  have A: "(\<exists>i. i < length (texts ?c) \<and> currentIndex ?s = Idx i \<and>
             prefix (displayText ?s) (texts ?c ! i) \<and>
             length (displayText ?s) \<le> length (texts ?c ! i))"
    and B: "(if isDeleting ?s
        then length (displayText (apply_event ?c Fire ?s)) \<le> length (displayText ?s) \<and>
             length (displayText ?s) \<le> length (displayText (apply_event ?c Fire ?s)) + 1
        else length (displayText ?s) \<le> length (displayText (apply_event ?c Fire ?s)) \<and>
             length (displayText (apply_event ?c Fire ?s)) \<le> length (displayText ?s) + 1)"
    unfolding Let_def by blast+
  from A obtain i where i: "i < length (texts ?c)" "currentIndex ?s = Idx i"
    "prefix (displayText ?s) (texts ?c ! i)" by blast
  from i(1) have "i = 0" by (simp add: default_props_def)
  with i have C: "currentIndex ?s = Idx 0" "prefix (displayText ?s) (texts ?c ! 0)" by simp_all
  from B nd have D: "length (displayText (apply_event ?c Fire ?s)) \<le> length (displayText ?s) + 1"
    by (simp only: if_False)
  from e C D show ?thesis by blast
qed

end
